theory Spec2Isabelle
  imports Complex_Main
begin

section \<open>Cleaning of the rail-delay data set\<close>

text \<open>
  The notebook \<^verbatim>\<open>tardis_eda.ipynb\<close> cleans a table of monthly rail-delay observations. This
  theory embeds the
  cleaning steps as functions: the repair of the \<open>Date\<close> strings, the fuzzy
  correction of station and service names, the removal of rows by date, the clean-up of
  the numeric columns and the flag for significant delays.

  Strings are lists of characters with code points below 256; in that range the class
  \<open>\d\<close> of Python's \<open>re\<close> module holds the ten ASCII digits only.
\<close>

subsection \<open>Date repair\<close>

definition is_digit :: "char \<Rightarrow> bool" where
  "is_digit c = (c \<in> set ''0123456789'')"

text \<open>
  \<open>re.match(r"\d{4}[^-]\d{2}", x)\<close>: four digits, one character that is not a hyphen,
  two digits, anchored at the start of \<open>x\<close>.
\<close>

fun date_match :: "string \<Rightarrow> bool" where
  "date_match (a # b # c # d # s # e # f # rest) =
     (is_digit a \<and> is_digit b \<and> is_digit c \<and> is_digit d \<and> s \<noteq> CHR ''-''
      \<and> is_digit e \<and> is_digit f)"
| "date_match _ = False"

text \<open>
  \<open>re.sub(r"(\d{4})([^-])(\d{2})", r"\1-\3", x)\<close>: scanning from the left, every
  occurrence of the pattern is replaced by its first group, a hyphen and its third group,
  and the scan goes on behind the occurrence; any other character is copied.
\<close>

fun date_sub :: "string \<Rightarrow> string" where
  "date_sub (a # b # c # d # s # e # f # rest) =
     (if date_match (a # b # c # d # s # e # f # rest)
      then [a, b, c, d, CHR ''-'', e, f] @ date_sub rest
      else a # date_sub (b # c # d # s # e # f # rest))"
| "date_sub xs = xs"

text \<open>The lambda applied to every element of \<open>df["Date"].astype(str)\<close>.\<close>

definition repair_date :: "string \<Rightarrow> string" where
  "repair_date x = (if date_match x then date_sub x else x)"

subsection \<open>Fuzzy correction of names\<close>

text \<open>
  What the notebook prints is kept as a list of log events, in the order of printing.
\<close>

datatype log =
    Correcting string string nat nat
  | CouldNotParse string
  | FoundNegative nat string
  | FoundOutliers nat string
  | FoundOver100 nat string

datatype py_error = TypeError | KeyError

text \<open>
  \<open>process.extractOne(name, top_list)\<close> belongs to the fuzzywuzzy library, not to the
  repository. Its similarity scorer (an integer from 0 to 100) is a parameter of the model.
  What is modelled is how the library uses the scorer: every choice is scored in list order,
  and Python's \<open>max\<close> keeps the first pair of maximal score; with no choice there is no
  result, and the unpacking \<open>match, score = ...\<close> of the caller fails.
\<close>

type_synonym scorer = "string \<Rightarrow> string \<Rightarrow> nat"

fun first_max :: "string \<times> nat \<Rightarrow> (string \<times> nat) list \<Rightarrow> string \<times> nat" where
  "first_max b [] = b"
| "first_max b (p # ps) = first_max (if snd b < snd p then p else b) ps"

definition extractOne :: "scorer \<Rightarrow> string \<Rightarrow> string list \<Rightarrow> (string \<times> nat) option" where
  "extractOne scorer query choices =
     (case map (\<lambda>c. (c, scorer query c)) choices of
        [] \<Rightarrow> None
      | p # ps \<Rightarrow> Some (first_max p ps))"

text \<open>
  \<open>correct_station_from_top(name, top_list, threshold=75)\<close>. A name is a string or the
  missing value \<open>NaN\<close> (\<open>None\<close> here). The result is the returned value with the lines
  printed by the call.
\<close>

definition correct_station_from_top ::
  "scorer \<Rightarrow> string option \<Rightarrow> string list \<Rightarrow> nat \<Rightarrow> py_error + (string option \<times> log list)" where
  "correct_station_from_top scorer name top_list threshold =
     (case name of
        None \<Rightarrow> Inr (None, [])
      | Some n \<Rightarrow>
          (case extractOne scorer n top_list of
             None \<Rightarrow> Inl TypeError
           | Some (match, score) \<Rightarrow>
               Inr (if threshold \<le> score then Some match else Some n,
                    if score < threshold then [Correcting n match score threshold] else [])))"

text \<open>
  \<open>df[c] = df[c].apply(lambda x: correct_station_from_top(x, top))\<close>, with the default
  threshold: the column is mapped in row order, and an exception ends the run.
\<close>

fun apply_correction ::
  "scorer \<Rightarrow> string list \<Rightarrow> string option list \<Rightarrow> py_error + (string option list \<times> log list)" where
  "apply_correction scorer top_list [] = Inr ([], [])"
| "apply_correction scorer top_list (x # xs) =
     (case correct_station_from_top scorer x top_list 75 of
        Inl e \<Rightarrow> Inl e
      | Inr (v, l) \<Rightarrow>
          (case apply_correction scorer top_list xs of
             Inl e \<Rightarrow> Inl e
           | Inr (vs, ls) \<Rightarrow> Inr (v # vs, l @ ls)))"

text \<open>
  A scorer for evaluating the corrector on concrete names. The library's default scorer
  compares two names after its own processing (characters outside ASCII are dropped, every
  character that is not a letter, a digit or an underscore becomes a blank, letters become
  lower case, blanks at both ends are dropped) and gives 100 to two names whose processed
  forms are equal and not empty, and 0 to a pair with an empty processed form.
  \<open>exact_scorer\<close> does the same on these pairs and gives 0 to every other pair; the
  evaluations below apply it to pairs of these two kinds only.
\<close>

definition is_ascii :: "char \<Rightarrow> bool" where
  "is_ascii c = (of_char c < (128 :: nat))"

definition is_word_char :: "char \<Rightarrow> bool" where
  "is_word_char c =
     (c \<in> set ''abcdefghijklmnopqrstuvwxyzABCDEFGHIJKLMNOPQRSTUVWXYZ0123456789_'')"

definition lower_char :: "char \<Rightarrow> char" where
  "lower_char c =
     (case map_of (zip ''ABCDEFGHIJKLMNOPQRSTUVWXYZ'' ''abcdefghijklmnopqrstuvwxyz'') c of
        None \<Rightarrow> c
      | Some l \<Rightarrow> l)"

definition strip :: "string \<Rightarrow> string" where
  "strip s = rev (dropWhile (\<lambda>c. c = CHR '' '') (rev (dropWhile (\<lambda>c. c = CHR '' '') s)))"

definition full_process :: "string \<Rightarrow> string" where
  "full_process s =
     strip (map lower_char
       (map (\<lambda>c. if is_word_char c then c else CHR '' '') (filter is_ascii s)))"

definition exact_scorer :: scorer where
  "exact_scorer q c =
     (if full_process q = full_process c \<and> full_process q \<noteq> [] then 100 else 0)"

subsection \<open>Numbers, cells and frames\<close>

text \<open>
  A numeric value of a column is a float: not-a-number (the missing value of pandas), an
  infinity or a finite number. The cleaning only compares values with constants and
  assigns constants, so a finite float is taken as the real number it denotes. A comparison
  with \<open>NaN\<close> on either side is false.
\<close>

datatype fval = NaN | NegInf | Fin real | PosInf

fun flt :: "fval \<Rightarrow> fval \<Rightarrow> bool" where
  "flt NaN y = False"
| "flt x NaN = False"
| "flt NegInf NegInf = False"
| "flt NegInf y = True"
| "flt (Fin a) (Fin b) = (a < b)"
| "flt (Fin a) PosInf = True"
| "flt (Fin a) NegInf = False"
| "flt PosInf y = False"

definition fgt :: "fval \<Rightarrow> fval \<Rightarrow> bool" where
  "fgt x y = flt y x"

fun fle :: "fval \<Rightarrow> fval \<Rightarrow> bool" where
  "fle NaN y = False"
| "fle x NaN = False"
| "fle NegInf y = True"
| "fle (Fin a) (Fin b) = (a \<le> b)"
| "fle (Fin a) PosInf = True"
| "fle (Fin a) NegInf = False"
| "fle PosInf PosInf = True"
| "fle PosInf y = False"

text \<open>
  A cell of the table as read from the file is a string or a number (an empty field is
  read as \<open>NaN\<close>). A frame maps the names of its columns to their cells; all columns of a
  frame have the same length.
\<close>

datatype cell = Str string | Num fval

type_synonym frame = "string \<Rightarrow> cell list option"

text \<open>
  \<open>pd.to_numeric(..., errors="coerce")\<close>: a number stays, a string goes through the
  number parser of pandas (a parameter: \<open>None\<close> for a token that is no number), and a token
  the parser refuses becomes \<open>NaN\<close>.
\<close>

fun to_numeric :: "(string \<Rightarrow> fval option) \<Rightarrow> cell \<Rightarrow> fval" where
  "to_numeric parse (Num v) = v"
| "to_numeric parse (Str s) = (case parse s of None \<Rightarrow> NaN | Some v \<Rightarrow> v)"

text \<open>A number parser for evaluating the coercion on concrete cells.\<close>

definition sample_number :: "string \<Rightarrow> fval option" where
  "sample_number s = (if s = ''120'' then Some (Fin 120) else None)"

subsection \<open>Clean-up of the numeric columns\<close>

definition numeric_columns :: "string list" where
  "numeric_columns =
    [''Average journey time'',
     ''Number of scheduled trains'',
     ''Number of cancelled trains'',
     ''Number of trains delayed at departure'',
     ''Number of trains delayed at arrival'',
     ''Number of trains delayed > 15min'',
     ''Number of trains delayed > 30min'',
     ''Number of trains delayed > 60min'',
     ''Average delay of late trains at departure'',
     ''Average delay of all trains at departure'',
     ''Average delay of late trains at arrival'',
     ''Average delay of all trains at arrival'',
     ''Average delay of trains > 15min (if competing with flights)'',
     ''Pct delay due to external causes'',
     ''Pct delay due to infrastructure'',
     ''Pct delay due to traffic management'',
     ''Pct delay due to rolling stock'',
     ''Pct delay due to station management and equipment reuse'',
     ''Pct delay due to passenger handling (crowding, disabled persons, connections)'']"

text \<open>Python's \<open>sub in s\<close> on strings.\<close>

fun contains :: "string \<Rightarrow> string \<Rightarrow> bool" where
  "contains sub [] = (sub = [])"
| "contains sub (c # cs) = (take (length sub) (c # cs) = sub \<or> contains sub cs)"

text \<open>
  The pattern the loop repeats: a boolean mask \<open>df[col] < 0\<close>, a printed count when the
  mask has a true entry, and the assignment \<open>df.loc[mask, col] = v\<close>.
\<close>

definition loc_assign :: "bool list \<Rightarrow> fval \<Rightarrow> fval list \<Rightarrow> fval list" where
  "loc_assign sel v xs = map (\<lambda>(m, x). if m then v else x) (zip sel xs)"

definition fix_where ::
  "(fval \<Rightarrow> bool) \<Rightarrow> fval \<Rightarrow> (nat \<Rightarrow> log) \<Rightarrow> fval list \<Rightarrow> fval list \<times> log list" where
  "fix_where test v msg xs =
     (let sel = map test xs
      in if True \<in> set sel
         then (loc_assign sel v xs, [msg (length (filter id sel))])
         else (xs, []))"

text \<open>The body of the loop for one column that the frame has.\<close>

definition clean_column ::
  "(string \<Rightarrow> fval option) \<Rightarrow> string \<Rightarrow> cell list \<Rightarrow> fval list \<times> log list" where
  "clean_column parse col cells =
     (let c0 = map (to_numeric parse) cells;
          (c1, l1) = fix_where (\<lambda>v. flt v (Fin 0)) (Fin 0) (\<lambda>n. FoundNegative n col) c0;
          (c2, l2) =
            (if contains ''Average'' col
             then fix_where (\<lambda>v. fgt v (Fin 500)) NaN (\<lambda>n. FoundOutliers n col) c1
             else (c1, []));
          (c3, l3) =
            (if contains ''Pct'' col
             then (let (a, la) =
                         fix_where (\<lambda>v. fgt v (Fin 100)) (Fin 100) (\<lambda>n. FoundOver100 n col) c2;
                       (b, lb) =
                         fix_where (\<lambda>v. flt v (Fin 0)) (Fin 0) (\<lambda>n. FoundNegative n col) a
                   in (b, la @ lb))
             else (c2, []))
      in (c3, l1 @ l2 @ l3))"

definition clean_step ::
  "(string \<Rightarrow> fval option) \<Rightarrow> string \<Rightarrow> frame \<times> log list \<Rightarrow> frame \<times> log list" where
  "clean_step parse col st =
     (case fst st col of
        None \<Rightarrow> st
      | Some cells \<Rightarrow>
          (let (c, l) = clean_column parse col cells
           in ((fst st)(col \<mapsto> map Num c), snd st @ l)))"

definition clean_numeric :: "(string \<Rightarrow> fval option) \<Rightarrow> frame \<Rightarrow> frame \<times> log list" where
  "clean_numeric parse df = fold (clean_step parse) numeric_columns (df, [])"

text \<open>
  The numeric sanitizer in the words of the specification, for one value of a column: after
  the coercion, a negative value becomes 0; in a column whose name contains \<open>Average\<close> a
  value above 500 becomes missing; in a column whose name contains \<open>Pct\<close> a value above
  100 becomes 100 and a value below 0 becomes 0.
\<close>

definition spec_sanitize :: "string \<Rightarrow> fval \<Rightarrow> fval" where
  "spec_sanitize col v =
     (let v1 = (if flt v (Fin 0) then Fin 0 else v);
          v2 = (if contains ''Average'' col \<and> fgt v1 (Fin 500) then NaN else v1)
      in if contains ''Pct'' col
         then (if fgt v2 (Fin 100) then Fin 100 else if flt v2 (Fin 0) then Fin 0 else v2)
         else v2)"

subsection \<open>Final preparation and the flag for significant delays\<close>

definition isna :: "cell \<Rightarrow> bool" where
  "isna c = (c = Num NaN)"

definition fillna :: "cell \<Rightarrow> cell list \<Rightarrow> cell list" where
  "fillna v xs = map (\<lambda>x. if isna x then v else x) xs"

fun as_number :: "cell \<Rightarrow> fval option" where
  "as_number (Num v) = Some v"
| "as_number (Str s) = None"

text \<open>A loop over column names whose body may raise.\<close>

fun for_each :: "('k \<Rightarrow> 's \<Rightarrow> py_error + 's) \<Rightarrow> 'k list \<Rightarrow> 's \<Rightarrow> py_error + 's" where
  "for_each f [] s = Inr s"
| "for_each f (k # ks) s = (case f k s of Inl e \<Rightarrow> Inl e | Inr s' \<Rightarrow> for_each f ks s')"

text \<open>
  \<open>df[col] = df[col].fillna(df[col].median())\<close>. The median of pandas is a parameter (it
  averages two floats); on a column that holds a string it raises.
\<close>

definition fill_numeric :: "(fval list \<Rightarrow> fval) \<Rightarrow> string \<Rightarrow> frame \<Rightarrow> py_error + frame" where
  "fill_numeric median col df =
     (case df col of
        None \<Rightarrow> Inr df
      | Some cells \<Rightarrow>
          (case those (map as_number cells) of
             None \<Rightarrow> Inl TypeError
           | Some vs \<Rightarrow> Inr (df(col \<mapsto> fillna (Num (median vs)) cells))))"

definition categorical_columns :: "string list" where
  "categorical_columns = [''Service'', ''Departure station'', ''Arrival station'', ''Season'']"

text \<open>
  \<open>df[col] = df[col].fillna(df[col].mode()[0])\<close>. The modes of pandas are a parameter;
  a column with no value has no mode, and the index \<open>[0]\<close> raises.
\<close>

definition fill_categorical ::
  "(cell list \<Rightarrow> cell list) \<Rightarrow> string \<Rightarrow> frame \<Rightarrow> py_error + frame" where
  "fill_categorical mode col df =
     (case df col of
        None \<Rightarrow> Inr df
      | Some cells \<Rightarrow>
          (case mode cells of
             [] \<Rightarrow> Inl KeyError
           | m # ms \<Rightarrow> Inr (df(col \<mapsto> fillna m cells))))"

text \<open>
  \<open>df["Is_Significantly_Delayed"] = (df["Average delay of all trains at arrival"] > 15).astype(int)\<close>.
  The integers 0 and 1 of the new column are written as numbers.
\<close>

definition significant :: "fval \<Rightarrow> cell" where
  "significant v = Num (Fin (if fgt v (Fin 15) then 1 else 0))"

definition flag_significant :: "frame \<Rightarrow> py_error + frame" where
  "flag_significant df =
     (case df ''Average delay of all trains at arrival'' of
        None \<Rightarrow> Inl KeyError
      | Some cells \<Rightarrow>
          (case those (map as_number cells) of
             None \<Rightarrow> Inl TypeError
           | Some vs \<Rightarrow> Inr (df(''Is_Significantly_Delayed'' \<mapsto> map significant vs))))"

text \<open>
  \<open>df["Route"] = df["Departure station"] + " to " + df["Arrival station"]\<close>: strings are
  joined, a missing value stays missing, a number cannot be joined to a string.
\<close>

fun cell_join :: "cell \<Rightarrow> cell \<Rightarrow> py_error + cell" where
  "cell_join (Str a) (Str b) = Inr (Str (a @ b))"
| "cell_join (Num NaN) y = Inr (Num NaN)"
| "cell_join (Str a) (Num NaN) = Inr (Num NaN)"
| "cell_join x y = Inl TypeError"

fun join_columns :: "cell list \<Rightarrow> cell list \<Rightarrow> py_error + cell list" where
  "join_columns (x # xs) (y # ys) =
     (case cell_join x y of
        Inl e \<Rightarrow> Inl e
      | Inr z \<Rightarrow> (case join_columns xs ys of Inl e \<Rightarrow> Inl e | Inr zs \<Rightarrow> Inr (z # zs)))"
| "join_columns xs ys = Inr []"

definition add_route :: "frame \<Rightarrow> py_error + frame" where
  "add_route df =
     (case df ''Departure station'' of
        None \<Rightarrow> Inl KeyError
      | Some dep \<Rightarrow>
          (case join_columns dep (map (\<lambda>c. Str '' to '') dep) of
             Inl e \<Rightarrow> Inl e
           | Inr left \<Rightarrow>
               (case df ''Arrival station'' of
                  None \<Rightarrow> Inl KeyError
                | Some arr \<Rightarrow>
                    (case join_columns left arr of
                       Inl e \<Rightarrow> Inl e
                     | Inr route \<Rightarrow> Inr (df(''Route'' \<mapsto> route))))))"

text \<open>The cell of the notebook that prepares the final data set, statement by statement.\<close>

definition final_prep ::
  "(fval list \<Rightarrow> fval) \<Rightarrow> (cell list \<Rightarrow> cell list) \<Rightarrow> frame \<Rightarrow> py_error + frame" where
  "final_prep median mode df =
     (case for_each (fill_numeric median) numeric_columns df of
        Inl e \<Rightarrow> Inl e
      | Inr df1 \<Rightarrow>
          (case for_each (fill_categorical mode) categorical_columns df1 of
             Inl e \<Rightarrow> Inl e
           | Inr df2 \<Rightarrow>
               (case flag_significant df2 of
                  Inl e \<Rightarrow> Inl e
                | Inr df3 \<Rightarrow> add_route df3)))"

text \<open>
  The clean-up of the numeric columns followed by the final preparation. The cells of the
  notebook between the two add columns and draw charts; they leave the cleaned columns as
  they are.
\<close>

definition prepare ::
  "(string \<Rightarrow> fval option) \<Rightarrow> (fval list \<Rightarrow> fval) \<Rightarrow> (cell list \<Rightarrow> cell list) \<Rightarrow> frame
   \<Rightarrow> py_error + frame" where
  "prepare parse median mode df = final_prep median mode (fst (clean_numeric parse df))"

text \<open>A frame for evaluating the final preparation.\<close>

definition sample_frame :: frame where
  "sample_frame =
     [''Average delay of all trains at arrival'' \<mapsto> [Num (Fin 20), Num (Fin 10), Num NaN],
      ''Departure station'' \<mapsto> [Str ''Paris Lyon'', Str ''Lille'', Str ''Nantes''],
      ''Arrival station'' \<mapsto> [Str ''Lille'', Num NaN, Str ''Paris Lyon'']]"

subsection \<open>Removal of rows by date\<close>

text \<open>
  \<open>pd.to_datetime\<close> is a function of pandas: on a string it returns a timestamp, returns
  the missing timestamp \<open>NaT\<close> (\<open>None\<close> here), or raises \<open>ValueError\<close>. The notebook calls
  it with the strict format \<open>%Y-%m\<close> and without a format; both parsers are parameters.
  Timestamps are values of a linear order. With \<open>errors="coerce"\<close> a string that the parser
  refuses gives \<open>NaT\<close>.
\<close>

datatype 't parsed = Returns "'t option" | Raises

definition to_datetime_coerce :: "(string \<Rightarrow> 't parsed) \<Rightarrow> string \<Rightarrow> 't option" where
  "to_datetime_coerce generic x = (case generic x of Raises \<Rightarrow> None | Returns d \<Rightarrow> d)"

text \<open>
  The rows of the frame are given by their index label and their \<open>Date\<close> string (the column
  after \<open>astype(str)\<close>); the labels of a frame are distinct.
\<close>

definition fix_dates :: "(nat \<times> string) list \<Rightarrow> (nat \<times> string) list" where
  "fix_dates rows = map (\<lambda>(i, x). (i, repair_date x)) rows"

text \<open>
  \<open>pd.to_datetime(x, errors="coerce") <= datetime.now()\<close>: a comparison with \<open>NaT\<close> is
  false. The clock is read once for every row; \<open>clock k\<close> is the reading for the row at
  position \<open>k\<close>.
\<close>

definition not_future :: "(string \<Rightarrow> ('t::linorder) parsed) \<Rightarrow> 't \<Rightarrow> string \<Rightarrow> bool" where
  "not_future generic now x =
     (case to_datetime_coerce generic x of None \<Rightarrow> False | Some d \<Rightarrow> d \<le> now)"

definition remove_future ::
  "(string \<Rightarrow> ('t::linorder) parsed) \<Rightarrow> (nat \<Rightarrow> 't) \<Rightarrow> (nat \<times> string) list
   \<Rightarrow> (nat \<times> string) list" where
  "remove_future generic clock rows =
     map snd (filter (\<lambda>(k, i, x). not_future generic (clock k) x) (enumerate 0 rows))"

definition safe_date_convert ::
  "(string \<Rightarrow> 't parsed) \<Rightarrow> (string \<Rightarrow> 't parsed) \<Rightarrow> string \<Rightarrow> 't option \<times> log list" where
  "safe_date_convert strict generic date_str =
     (if date_str = '''' \<or> date_str = ''N/A'' then (None, [])
      else (case strict date_str of
              Returns d \<Rightarrow> (d, [])
            | Raises \<Rightarrow>
                (case generic date_str of
                   Returns d \<Rightarrow> (d, [])
                 | Raises \<Rightarrow> (None, [CouldNotParse date_str]))))"

text \<open>
  The frame \<open>df\<close> after the repair, the removal of future dates and the conversion, and
  the frame \<open>df_clean\<close> of its rows with a date.
\<close>

definition df_dates ::
  "(string \<Rightarrow> ('t::linorder) parsed) \<Rightarrow> (string \<Rightarrow> 't parsed) \<Rightarrow> (nat \<Rightarrow> 't)
   \<Rightarrow> (nat \<times> string) list \<Rightarrow> (nat \<times> 't option) list" where
  "df_dates strict generic clock rows =
     map (\<lambda>(i, x). (i, fst (safe_date_convert strict generic x)))
       (remove_future generic clock (fix_dates rows))"

definition df_dates_log ::
  "(string \<Rightarrow> ('t::linorder) parsed) \<Rightarrow> (string \<Rightarrow> 't parsed) \<Rightarrow> (nat \<Rightarrow> 't)
   \<Rightarrow> (nat \<times> string) list \<Rightarrow> log list" where
  "df_dates_log strict generic clock rows =
     concat (map (\<lambda>(i, x). snd (safe_date_convert strict generic x))
       (remove_future generic clock (fix_dates rows)))"

definition df_clean ::
  "(string \<Rightarrow> ('t::linorder) parsed) \<Rightarrow> (string \<Rightarrow> 't parsed) \<Rightarrow> (nat \<Rightarrow> 't)
   \<Rightarrow> (nat \<times> string) list \<Rightarrow> (nat \<times> 't option) list" where
  "df_clean strict generic clock rows =
     filter (\<lambda>(i, d). d \<noteq> None) (df_dates strict generic clock rows)"

text \<open>
  Parsers for evaluating the date steps on concrete rows; a timestamp is written as the
  number \<open>100 * year + month\<close>.
\<close>

definition sample_strict :: "string \<Rightarrow> nat parsed" where
  "sample_strict x =
     (if x = ''2023-04'' then Returns (Some 202304)
      else if x = ''2999-01'' then Returns (Some 299901)
      else Raises)"

definition sample_generic :: "string \<Rightarrow> nat parsed" where
  "sample_generic x =
     (if x = ''nan'' then Returns None
      else if x = ''April 2023'' then Returns (Some 202304)
      else sample_strict x)"

definition sample_rows :: "(nat \<times> string) list" where
  "sample_rows =
     [(0, ''2023.04''), (1, ''2999-01''), (2, ''nan''), (3, ''abc''), (4, ''April 2023'')]"

section \<open>Properties\<close>

lemma date_match_length: "date_match x \<Longrightarrow> 7 \<le> length x"
  by (induction x rule: date_match.induct) simp_all

lemma repair_date_short: "length x < 7 \<Longrightarrow> repair_date x = x"
  using date_match_length [of x] by (auto simp: repair_date_def)

lemma repair_date_hyphen: "repair_date ''2023-04'' = ''2023-04''"
  by (simp add: repair_date_def)

lemma repair_date_dot: "repair_date ''2023.04'' = ''2023-04''"
  by (simp add: repair_date_def is_digit_def)

text \<open>
  C1. The claim: date repair turns \<open>202304\<close> into \<open>2023-04\<close>. The pattern of the code asks
  for a separator character between the year and the month, so the six-character string
  does not match and is returned as it is.
\<close>

theorem repair_date_202304: "repair_date ''202304'' = ''202304''"
  by (simp add: repair_date_def)

subsection \<open>The fuzzy corrector\<close>

lemma first_max_mem: "first_max b ps \<in> set (b # ps)"
  by (induction ps arbitrary: b) auto

lemma first_max_ge_start: "snd b \<le> snd (first_max b ps)"
proof (induction ps arbitrary: b)
  case Nil
  show ?case by simp
next
  case (Cons q qs)
  show ?case
    using Cons [of q] Cons [of b] by (cases "snd b < snd q") auto
qed

lemma first_max_ge_rest: "p \<in> set ps \<Longrightarrow> snd p \<le> snd (first_max b ps)"
proof (induction ps arbitrary: b)
  case Nil
  then show ?case by simp
next
  case (Cons q qs)
  show ?case
  proof (cases "p = q")
    case True
    then show ?thesis
      using first_max_ge_start [of q qs] first_max_ge_start [of b qs]
      by (cases "snd b < snd q") auto
  next
    case False
    with Cons.prems have "p \<in> set qs" by simp
    then show ?thesis using Cons.IH by simp
  qed
qed

lemma first_max_ge: "p \<in> set (b # ps) \<Longrightarrow> snd p \<le> snd (first_max b ps)"
  using first_max_ge_start [of b ps] first_max_ge_rest [of p ps b] by auto

lemma first_max_keep: "\<forall>p \<in> set ps. snd p \<le> snd b \<Longrightarrow> first_max b ps = b"
  by (induction ps arbitrary: b) auto

lemma first_max_later:
  "\<forall>p \<in> set pre. snd p < snd q \<Longrightarrow> \<forall>p \<in> set post. snd p \<le> snd q \<Longrightarrow> snd b < snd q
   \<Longrightarrow> first_max b (pre @ q # post) = q"
proof (induction pre arbitrary: b)
  case Nil
  then show ?case by (simp add: first_max_keep)
next
  case (Cons r rs)
  then show ?case by auto
qed

lemma extractOne_Some:
  assumes "choices \<noteq> []"
  shows "\<exists>m s. extractOne scorer query choices = Some (m, s) \<and> m \<in> set choices
           \<and> s = scorer query m \<and> (\<forall>c \<in> set choices. scorer query c \<le> s)"
proof -
  from assms obtain c cs where choices: "choices = c # cs" by (cases choices) auto
  let ?b = "(c, scorer query c)"
  let ?ps = "map (\<lambda>c. (c, scorer query c)) cs"
  let ?r = "first_max ?b ?ps"
  have ex: "extractOne scorer query choices = Some ?r"
    by (simp add: extractOne_def choices)
  have "?r \<in> set (?b # ?ps)" by (rule first_max_mem)
  then have mem: "fst ?r \<in> set choices" and sc: "snd ?r = scorer query (fst ?r)"
    by (auto simp: choices)
  have ge: "scorer query d \<le> snd ?r" if "d \<in> set choices" for d
  proof -
    from that have "(d, scorer query d) \<in> set (?b # ?ps)" by (auto simp: choices)
    from first_max_ge [OF this] show ?thesis by simp
  qed
  have "extractOne scorer query choices = Some (fst ?r, snd ?r)"
    using ex by simp
  then show ?thesis
    using mem sc ge by (intro exI [of _ "fst ?r"] exI [of _ "snd ?r"]) simp
qed

lemma extractOne_mem: "extractOne scorer query choices = Some (m, s) \<Longrightarrow> m \<in> set choices"
  using extractOne_Some [of choices scorer query] by (cases choices) (auto simp: extractOne_def)

lemma exact_scorer_paris [simp]:
  "exact_scorer ''Paris-Lyon'' ''Paris Lyon'' = 100"
  "exact_scorer ''Paris-Lyon'' ''Paris-Lyon'' = 100"
  by (simp_all add: exact_scorer_def full_process_def strip_def is_word_char_def lower_char_def
      is_ascii_def)

text \<open>
  C3. For a name that is not missing and a reference list that is not empty, the corrector
  takes the best match of the list (no element of the list scores higher against the name)
  with its score, and returns the match when the score is at least 75 and the name itself
  when the score is below 75. A missing name is returned as it is.
\<close>

theorem correct_station_from_top_spec:
  "(top_list \<noteq> [] \<longrightarrow>
     (\<exists>match score logs.
        extractOne scorer name top_list = Some (match, score)
        \<and> match \<in> set top_list \<and> score = scorer name match
        \<and> (\<forall>c \<in> set top_list. scorer name c \<le> score)
        \<and> correct_station_from_top scorer (Some name) top_list 75
            = Inr (if 75 \<le> score then Some match else Some name, logs)))
   \<and> correct_station_from_top scorer None top_list 75 = Inr (None, [])"
proof (intro conjI impI)
  assume "top_list \<noteq> []"
  from extractOne_Some [OF this, of scorer name]
  obtain m s where ex: "extractOne scorer name top_list = Some (m, s)"
    and rest: "m \<in> set top_list" "s = scorer name m" "\<forall>c \<in> set top_list. scorer name c \<le> s"
    by blast
  show "\<exists>match score logs.
        extractOne scorer name top_list = Some (match, score)
        \<and> match \<in> set top_list \<and> score = scorer name match
        \<and> (\<forall>c \<in> set top_list. scorer name c \<le> score)
        \<and> correct_station_from_top scorer (Some name) top_list 75
            = Inr (if 75 \<le> score then Some match else Some name, logs)"
    using ex rest by (simp add: correct_station_from_top_def)
next
  show "correct_station_from_top scorer None top_list 75 = Inr (None, [])"
    by (simp add: correct_station_from_top_def)
qed

theorem correct_station_from_top_spec_witness:
  "[''Paris Lyon''] \<noteq> ([] :: string list)
   \<and> (\<exists>logs. correct_station_from_top exact_scorer (Some ''Paris-Lyon'') [''Paris Lyon''] 75
         = Inr (Some ''Paris Lyon'', logs))
   \<and> correct_station_from_top exact_scorer None [''Paris Lyon''] 75 = Inr (None, [])"
  using correct_station_from_top_spec [of "[''Paris Lyon'']" exact_scorer "''Paris-Lyon''"]
  by (simp add: extractOne_def)

lemma first_max_split:
  "first_max b ps = r \<Longrightarrow>
   \<exists>pre post. b # ps = pre @ r # post
      \<and> (\<forall>p \<in> set pre. snd p < snd r) \<and> (\<forall>p \<in> set post. snd p \<le> snd r)"
proof (induction ps arbitrary: b)
  case Nil
  then have "[b] = [] @ r # []" by simp
  then show ?case by fastforce
next
  case (Cons p ps)
  show ?case
  proof (cases "snd b < snd p")
    case True
    with Cons.prems have r: "first_max p ps = r" by simp
    from Cons.IH [OF r] obtain pre post where *: "p # ps = pre @ r # post"
      "\<forall>q \<in> set pre. snd q < snd r" "\<forall>q \<in> set post. snd q \<le> snd r"
      by blast
    have "snd b < snd r"
      using True first_max_ge_start [of p ps] r by simp
    with * have "b # p # ps = (b # pre) @ r # post" "\<forall>q \<in> set (b # pre). snd q < snd r"
      by simp_all
    with *(3) show ?thesis by blast
  next
    case False
    with Cons.prems have r: "first_max b ps = r" by simp
    from Cons.IH [OF r] obtain pre post where *: "b # ps = pre @ r # post"
      "\<forall>q \<in> set pre. snd q < snd r" "\<forall>q \<in> set post. snd q \<le> snd r"
      by blast
    show ?thesis
    proof (cases pre)
      case Nil
      with * have br: "b = r" and ps: "ps = post" by simp_all
      have "b # p # ps = [] @ r # (p # post)" by (simp add: br ps)
      moreover have "\<forall>q \<in> set (p # post). snd q \<le> snd r"
        using False *(3) br by auto
      moreover have "\<forall>q \<in> set ([] :: (string \<times> nat) list). snd q < snd r" by simp
      ultimately show ?thesis by blast
    next
      case (Cons c cs)
      with * have c: "c = b" and ps: "ps = cs @ r # post" by simp_all
      from * Cons c have "snd b < snd r" by simp
      with False have pr: "snd p < snd r" by simp
      have "b # p # ps = (b # p # cs) @ r # post" by (simp add: ps)
      moreover have "\<forall>q \<in> set (b # p # cs). snd q < snd r"
        using *(2) Cons c pr by auto
      ultimately show ?thesis using *(3) by blast
    qed
  qed
qed

lemma extractOne_split:
  assumes "extractOne scorer query choices = Some (m, s)"
  shows "\<exists>pre post. choices = pre @ m # post \<and> s = scorer query m
           \<and> (\<forall>c \<in> set pre. scorer query c < s)
           \<and> (\<forall>c \<in> set post. scorer query c \<le> s)"
proof -
  let ?f = "\<lambda>c. (c, scorer query c)"
  from assms obtain c cs where choices: "choices = c # cs"
    and r: "first_max (?f c) (map ?f cs) = (m, s)"
    by (cases choices) (auto simp: extractOne_def)
  from first_max_split [OF r]
  obtain pre post where *: "map ?f choices = pre @ (m, s) # post"
    "\<forall>p \<in> set pre. snd p < s" "\<forall>p \<in> set post. snd p \<le> s"
    by (auto simp: choices)
  from *(1) obtain pre' m' post' where split: "choices = pre' @ m' # post'"
    "pre = map ?f pre'" "(m, s) = ?f m'" "post = map ?f post'"
    by (auto simp: map_eq_append_conv map_eq_Cons_conv)
  with * show ?thesis
    by (intro exI [of _ pre'] exI [of _ post']) auto
qed

lemma correct_station_first_best:
  assumes top_list: "top_list = pre @ name # post"
    and pre: "\<forall>c \<in> set pre. scorer name c < scorer name name"
    and post: "\<forall>c \<in> set post. scorer name c \<le> scorer name name"
  shows "\<exists>logs. correct_station_from_top scorer (Some name) top_list threshold
           = Inr (Some name, logs)"
proof -
  let ?f = "\<lambda>c. (c, scorer name c)"
  have best: "extractOne scorer name top_list = Some (?f name)"
  proof (cases pre)
    case Nil
    have "first_max (?f name) (map ?f post) = ?f name"
      using post by (intro first_max_keep) auto
    then show ?thesis by (simp add: extractOne_def top_list Nil)
  next
    case (Cons c cs)
    have "first_max (?f c) (map ?f cs @ ?f name # map ?f post) = ?f name"
      using pre post by (intro first_max_later) (auto simp: Cons)
    then show ?thesis by (simp add: extractOne_def top_list Cons)
  qed
  show ?thesis by (simp add: correct_station_from_top_def best)
qed

lemma correct_station_low:
  assumes "top_list \<noteq> []" and low: "\<forall>c \<in> set top_list. scorer name c < threshold"
  shows "\<exists>logs. correct_station_from_top scorer (Some name) top_list threshold
           = Inr (Some name, logs)"
proof -
  from extractOne_Some [OF assms(1), of scorer name] obtain m s
    where ex: "extractOne scorer name top_list = Some (m, s)" and m: "m \<in> set top_list"
      and s: "s = scorer name m"
    by blast
  from low m s have "s < threshold" by simp
  with ex show ?thesis by (simp add: correct_station_from_top_def)
qed

lemma first_occurrence_unique:
  "x \<notin> set xs \<Longrightarrow> x \<notin> set xs' \<Longrightarrow> xs @ x # ys = xs' @ x # ys'
   \<Longrightarrow> xs = xs' \<and> ys = ys'"
proof (induction xs arbitrary: xs')
  case Nil
  then show ?case by (cases xs') auto
next
  case (Cons a as)
  then show ?case by (cases xs') auto
qed

lemma correct_station_unchanged_iff:
  assumes top_list: "top_list = pre @ name # post" and first: "name \<notin> set pre"
  shows "(\<exists>logs. correct_station_from_top scorer (Some name) top_list threshold
            = Inr (Some name, logs))
         \<longleftrightarrow> ((\<forall>c \<in> set top_list. scorer name c < threshold)
              \<or> ((\<forall>c \<in> set pre. scorer name c < scorer name name)
                  \<and> (\<forall>c \<in> set post. scorer name c \<le> scorer name name)))"
    (is "?unchanged \<longleftrightarrow> ?low \<or> ?best")
proof
  assume ?unchanged
  then obtain logs where run:
    "correct_station_from_top scorer (Some name) top_list threshold = Inr (Some name, logs)"
    by blast
  then obtain m s where ex: "extractOne scorer name top_list = Some (m, s)"
    and v: "Some name = (if threshold \<le> s then Some m else Some name)"
    by (auto simp: correct_station_from_top_def split: option.splits)
  from extractOne_split [OF ex] obtain pre' post' where split: "top_list = pre' @ m # post'"
    "s = scorer name m" "\<forall>c \<in> set pre'. scorer name c < s" "\<forall>c \<in> set post'. scorer name c \<le> s"
    by blast
  show "?low \<or> ?best"
  proof (cases "threshold \<le> s")
    case False
    have "scorer name c < threshold" if "c \<in> set top_list" for c
    proof -
      from that split have "scorer name c \<le> s" by (auto simp: less_imp_le)
      with False show ?thesis by simp
    qed
    then show ?thesis by blast
  next
    case True
    with v have m: "m = name" by simp
    from split(3) m split(2) have "name \<notin> set pre'" by auto
    moreover have "pre' @ name # post' = pre @ name # post"
      using top_list split(1) m by simp
    ultimately have "pre' = pre \<and> post' = post"
      using first by (intro first_occurrence_unique)
    with split m show ?thesis by simp
  qed
next
  assume "?low \<or> ?best"
  then show ?unchanged
  proof
    assume ?low
    moreover have "top_list \<noteq> []" by (simp add: top_list)
    ultimately show ?unchanged by (intro correct_station_low)
  next
    assume ?best
    then show ?unchanged using top_list by (intro correct_station_first_best) auto
  qed
qed

lemma correct_station_twice:
  assumes self_max: "\<forall>a b. scorer a b \<le> scorer a a"
    and tie: "\<forall>a b q. threshold \<le> scorer a a \<and> scorer a b = scorer a a
                \<longrightarrow> scorer q b = scorer q a"
    and run: "correct_station_from_top scorer x top_list threshold = Inr (v, logs)"
  shows "\<exists>logs'. correct_station_from_top scorer v top_list threshold = Inr (v, logs')"
proof (cases x)
  case None
  with run show ?thesis by (simp add: correct_station_from_top_def)
next
  case (Some n)
  with run obtain m s where ex: "extractOne scorer n top_list = Some (m, s)"
    and v: "v = (if threshold \<le> s then Some m else Some n)"
    by (auto simp: correct_station_from_top_def split: option.splits)
  show ?thesis
  proof (cases "threshold \<le> s")
    case False
    with v Some run show ?thesis by auto
  next
    case True
    with v have v: "v = Some m" by simp
    from extractOne_split [OF ex] obtain pre post where split: "top_list = pre @ m # post"
      "s = scorer n m" "\<forall>c \<in> set pre. scorer n c < s"
      by blast
    show ?thesis
    proof (cases "threshold \<le> scorer m m")
      case False
      have "\<forall>c \<in> set top_list. scorer m c < threshold"
      proof
        fix c
        from self_max have "scorer m c \<le> scorer m m" by blast
        with False show "scorer m c < threshold" by simp
      qed
      moreover have "top_list \<noteq> []" by (simp add: split(1))
      ultimately show ?thesis unfolding v by (intro correct_station_low)
    next
      case high: True
      have "scorer m c < scorer m m" if c: "c \<in> set pre" for c
      proof (rule ccontr)
        assume "\<not> scorer m c < scorer m m"
        with self_max have "scorer m c = scorer m m"
          by (metis le_neq_implies_less)
        with tie high have "scorer n c = scorer n m" by blast
        with split(2,3) c show False by auto
      qed
      moreover have "\<forall>c \<in> set post. scorer m c \<le> scorer m m"
        using self_max by blast
      ultimately show ?thesis unfolding v
        using split(1) by (intro correct_station_first_best) auto
    qed
  qed
qed

lemma exact_scorer_self_max: "exact_scorer a b \<le> exact_scorer a a"
  by (simp add: exact_scorer_def)

lemma exact_scorer_tie:
  "75 \<le> exact_scorer a a \<and> exact_scorer a b = exact_scorer a a
   \<longrightarrow> exact_scorer q b = exact_scorer q a"
  by (auto simp: exact_scorer_def split: if_splits)

lemma exact_scorer_blank:
  "exact_scorer ''Paris-Lyon'' ''---'' = 0"
  "exact_scorer ''Paris Lyon'' ''---'' = 0"
  "exact_scorer ''Paris Lyon'' ''Paris Lyon'' = 100"
  by (simp_all add: exact_scorer_def full_process_def strip_def is_word_char_def lower_char_def
      is_ascii_def)

text \<open>
  C6. The claim: every name of the reference list is returned unchanged. An earlier
  element of the list with the same score wins the tie: for the list of \<open>Paris Lyon\<close>
  and \<open>Paris-Lyon\<close>, which the scorer does not tell apart, the canonical name
  \<open>Paris-Lyon\<close> is replaced by \<open>Paris Lyon\<close>.
\<close>

theorem correct_station_canonical_counterexample:
  "''Paris-Lyon'' \<in> set [''Paris Lyon'', ''Paris-Lyon'']
   \<and> correct_station_from_top exact_scorer (Some ''Paris-Lyon'')
        [''Paris Lyon'', ''Paris-Lyon''] 75 = Inr (Some ''Paris Lyon'', [])"
  by (simp add: correct_station_from_top_def extractOne_def)

text \<open>
  C6, amended. Correcting a corrected value changes nothing, for every scorer under which
  no name scores higher against a name than that name itself, and under which two names
  that tie at a self-score of at least the threshold have equal scores against every
  query: a value that the corrector returns is returned unchanged when it is corrected
  again. A name of the reference list is returned unchanged exactly when every element of
  the list scores below the threshold against it, or every element before its first
  occurrence scores strictly lower against it than the name itself and no element behind
  scores higher.
\<close>

theorem correct_station_idempotent:
  "((\<forall>a b. scorer a b \<le> scorer a a)
      \<and> (\<forall>a b q. threshold \<le> scorer a a \<and> scorer a b = scorer a a
             \<longrightarrow> scorer q b = scorer q a)
      \<and> correct_station_from_top scorer x top_list threshold = Inr (v, logs)
     \<longrightarrow> (\<exists>logs'. correct_station_from_top scorer v top_list threshold = Inr (v, logs')))
   \<and> (top_list = pre @ name # post \<and> name \<notin> set pre
     \<longrightarrow> ((\<exists>logs. correct_station_from_top scorer (Some name) top_list threshold
                  = Inr (Some name, logs))
          \<longleftrightarrow> ((\<forall>c \<in> set top_list. scorer name c < threshold)
               \<or> ((\<forall>c \<in> set pre. scorer name c < scorer name name)
                   \<and> (\<forall>c \<in> set post. scorer name c \<le> scorer name name)))))"
proof (intro conjI impI)
  assume "(\<forall>a b. scorer a b \<le> scorer a a)
      \<and> (\<forall>a b q. threshold \<le> scorer a a \<and> scorer a b = scorer a a
             \<longrightarrow> scorer q b = scorer q a)
      \<and> correct_station_from_top scorer x top_list threshold = Inr (v, logs)"
  then show "\<exists>logs'. correct_station_from_top scorer v top_list threshold = Inr (v, logs')"
    using correct_station_twice [of scorer threshold x top_list v logs] by blast
next
  assume "top_list = pre @ name # post \<and> name \<notin> set pre"
  then show "(\<exists>logs. correct_station_from_top scorer (Some name) top_list threshold
                  = Inr (Some name, logs))
          \<longleftrightarrow> ((\<forall>c \<in> set top_list. scorer name c < threshold)
               \<or> ((\<forall>c \<in> set pre. scorer name c < scorer name name)
                   \<and> (\<forall>c \<in> set post. scorer name c \<le> scorer name name)))"
    using correct_station_unchanged_iff [of top_list pre name post scorer threshold] by blast
qed

theorem correct_station_idempotent_witness:
  "correct_station_from_top exact_scorer (Some ''Paris-Lyon'') [''---'', ''Paris Lyon''] 75
     = Inr (Some ''Paris Lyon'', [])
   \<and> (\<exists>logs'. correct_station_from_top exact_scorer (Some ''Paris Lyon'')
          [''---'', ''Paris Lyon''] 75 = Inr (Some ''Paris Lyon'', logs'))
   \<and> [''---'', ''Paris Lyon''] = [''---''] @ ''Paris Lyon'' # []
   \<and> ''Paris Lyon'' \<notin> set [''---'']
   \<and> exact_scorer ''Paris Lyon'' ''---'' < exact_scorer ''Paris Lyon'' ''Paris Lyon''"
proof -
  have run: "correct_station_from_top exact_scorer (Some ''Paris-Lyon'')
      [''---'', ''Paris Lyon''] 75 = Inr (Some ''Paris Lyon'', [])"
    by (simp add: correct_station_from_top_def extractOne_def exact_scorer_blank)
  have self_max: "\<forall>a b. exact_scorer a b \<le> exact_scorer a a"
    by (simp add: exact_scorer_self_max)
  have tie: "\<forall>a b q. 75 \<le> exact_scorer a a \<and> exact_scorer a b = exact_scorer a a
      \<longrightarrow> exact_scorer q b = exact_scorer q a"
    using exact_scorer_tie by blast
  have split: "[''---'', ''Paris Lyon''] = [''---''] @ ''Paris Lyon'' # []"
    and first: "''Paris Lyon'' \<notin> set [''---'']"
    and lower: "exact_scorer ''Paris Lyon'' ''---'' < exact_scorer ''Paris Lyon'' ''Paris Lyon''"
    by (simp_all add: exact_scorer_blank)
  note both = correct_station_idempotent [where scorer = exact_scorer and threshold = 75
      and x = "Some ''Paris-Lyon''" and top_list = "[''---'', ''Paris Lyon'']"
      and v = "Some ''Paris Lyon''" and logs = "[]" and pre = "[''---'']"
      and name = "''Paris Lyon''" and post = "[]"]
  have twice: "\<exists>logs'. correct_station_from_top exact_scorer (Some ''Paris Lyon'')
      [''---'', ''Paris Lyon''] 75 = Inr (Some ''Paris Lyon'', logs')"
    by (rule both [THEN conjunct1, THEN mp]) (intro conjI self_max tie run)
  have best: "(\<forall>c \<in> set [''---'', ''Paris Lyon'']. exact_scorer ''Paris Lyon'' c < 75)
      \<or> ((\<forall>c \<in> set [''---'']. exact_scorer ''Paris Lyon'' c
              < exact_scorer ''Paris Lyon'' ''Paris Lyon'')
          \<and> (\<forall>c \<in> set []. exact_scorer ''Paris Lyon'' c
              \<le> exact_scorer ''Paris Lyon'' ''Paris Lyon''))"
    by (simp add: exact_scorer_blank)
  have again: "\<exists>logs. correct_station_from_top exact_scorer (Some ''Paris Lyon'')
      [''---'', ''Paris Lyon''] 75 = Inr (Some ''Paris Lyon'', logs)"
    by (rule both [THEN conjunct2, THEN mp, OF conjI [OF split first], THEN iffD2, OF best])
  from twice again show ?thesis
    by (intro conjI run split first lower)
qed

text \<open>
  C8. The claim: a line is printed exactly when the value is corrected. In the code the
  \<open>Correcting\<close> line is printed exactly when the score is below the threshold, which is
  when the name is returned as it is; when the name is replaced by the match nothing is
  printed.
\<close>

theorem correct_station_log:
  assumes "extractOne scorer name top_list = Some (match, score)"
  shows "correct_station_from_top scorer (Some name) top_list threshold =
           (if score < threshold
            then Inr (Some name, [Correcting name match score threshold])
            else Inr (Some match, []))"
  using assms by (simp add: correct_station_from_top_def)

theorem correct_station_log_witness:
  "extractOne exact_scorer ''Paris-Lyon'' [''Paris Lyon''] = Some (''Paris Lyon'', 100)
   \<and> correct_station_from_top exact_scorer (Some ''Paris-Lyon'') [''Paris Lyon''] 75
       = Inr (Some ''Paris Lyon'', [])"
proof -
  have ex: "extractOne exact_scorer ''Paris-Lyon'' [''Paris Lyon''] = Some (''Paris Lyon'', 100)"
    by (simp add: extractOne_def)
  show ?thesis
    using ex correct_station_log [OF ex, of 75] by simp
qed

text \<open>
  C10. A value returned by the corrector is the input itself or an element of the reference
  list.
\<close>

theorem correct_station_closure:
  assumes "correct_station_from_top scorer name top_list threshold = Inr (v, logs)"
  shows "v = name \<or> (\<exists>m \<in> set top_list. v = Some m)"
proof (cases name)
  case None
  with assms show ?thesis by (simp add: correct_station_from_top_def)
next
  case (Some n)
  with assms obtain m s where ex: "extractOne scorer n top_list = Some (m, s)"
    and v: "v = (if threshold \<le> s then Some m else Some n)"
    by (auto simp: correct_station_from_top_def split: option.splits)
  from extractOne_mem [OF ex] have "m \<in> set top_list" .
  with v Some show ?thesis by auto
qed

theorem correct_station_closure_witness:
  "correct_station_from_top exact_scorer (Some ''Paris-Lyon'') [''Paris Lyon''] 75
     = Inr (Some ''Paris Lyon'', [])
   \<and> (Some ''Paris Lyon'' = Some ''Paris-Lyon''
        \<or> (\<exists>m \<in> set [''Paris Lyon'']. Some ''Paris Lyon'' = Some m))"
proof -
  have run: "correct_station_from_top exact_scorer (Some ''Paris-Lyon'') [''Paris Lyon''] 75
     = Inr (Some ''Paris Lyon'', [])"
    by (simp add: correct_station_from_top_def extractOne_def)
  show ?thesis
    using run correct_station_closure [OF run] by simp
qed

text \<open>The same closure for a whole column, as the notebook applies the corrector.\<close>

lemma apply_correction_closure:
  "apply_correction scorer top_list col = Inr (col', logs)
   \<Longrightarrow> list_all2 (\<lambda>x v. v = x \<or> (\<exists>m \<in> set top_list. v = Some m)) col col'"
proof (induction col arbitrary: col' logs)
  case Nil
  then show ?case by simp
next
  case (Cons x xs)
  from Cons.prems obtain v l vs ls
    where one: "correct_station_from_top scorer x top_list 75 = Inr (v, l)"
      and rest: "apply_correction scorer top_list xs = Inr (vs, ls)"
      and col': "col' = v # vs"
    by (auto split: sum.splits prod.splits)
  have "v = x \<or> (\<exists>m \<in> set top_list. v = Some m)"
  proof (cases x)
    case None
    with one show ?thesis by (simp add: correct_station_from_top_def)
  next
    case (Some n)
    with one obtain m s where ex: "extractOne scorer n top_list = Some (m, s)"
      and v: "v = (if 75 \<le> s then Some m else Some n)"
      by (auto simp: correct_station_from_top_def split: option.splits)
    from extractOne_mem [OF ex] v Some show ?thesis by auto
  qed
  with Cons.IH [OF rest] col' show ?case by simp
qed

subsection \<open>The numeric sanitizer\<close>

lemma loc_assign_map:
  "loc_assign (map test xs) v xs = map (\<lambda>x. if test x then v else x) xs"
  by (induction xs) (simp_all add: loc_assign_def)

lemma fst_fix_where:
  "fst (fix_where test v msg xs) = map (\<lambda>x. if test x then v else x) xs"
proof (cases "True \<in> set (map test xs)")
  case True
  then show ?thesis by (simp add: fix_where_def loc_assign_map)
next
  case False
  then have "map (\<lambda>x. if test x then v else x) xs = xs"
    by (induction xs) auto
  with False show ?thesis by (simp add: fix_where_def)
qed

lemma fst_clean_column:
  "fst (clean_column parse col cells) = map (\<lambda>c. spec_sanitize col (to_numeric parse c)) cells"
  by (simp add: clean_column_def Let_def case_prod_beta fst_fix_where spec_sanitize_def)

lemma clean_step_other:
  "c \<noteq> col \<Longrightarrow> fst (clean_step parse c st) col = fst st col"
  by (simp add: clean_step_def Let_def case_prod_beta split: option.splits)

lemma clean_step_same:
  "fst (clean_step parse col st) col =
     map_option (\<lambda>cells. map Num (fst (clean_column parse col cells))) (fst st col)"
  by (simp add: clean_step_def Let_def case_prod_beta split: option.splits)

lemma fold_clean_step:
  "distinct cs \<Longrightarrow>
   fst (fold (clean_step parse) cs st) col =
     (if col \<in> set cs
      then map_option (\<lambda>cells. map Num (fst (clean_column parse col cells))) (fst st col)
      else fst st col)"
proof (induction cs arbitrary: st)
  case Nil
  then show ?case by simp
next
  case (Cons c cs)
  show ?case
  proof (cases "c = col")
    case True
    with Cons show ?thesis by (simp add: clean_step_same)
  next
    case False
    with Cons show ?thesis by (simp add: clean_step_other)
  qed
qed

lemma distinct_numeric_columns: "distinct numeric_columns"
  by (simp add: numeric_columns_def)

lemma clean_numeric_column:
  "fst (clean_numeric parse df) col =
     (if col \<in> set numeric_columns
      then map_option (map (\<lambda>c. Num (spec_sanitize col (to_numeric parse c)))) (df col)
      else df col)"
  by (simp add: clean_numeric_def fold_clean_step [OF distinct_numeric_columns] fst_clean_column
      comp_def)

lemma spec_sanitize_not_negative: "\<not> flt (spec_sanitize col v) (Fin 0)"
  by (cases v) (simp_all add: spec_sanitize_def fgt_def Let_def)

lemma spec_sanitize_average:
  "contains ''Average'' col \<Longrightarrow> spec_sanitize col v \<noteq> NaN
   \<Longrightarrow> fle (spec_sanitize col v) (Fin 500)"
  by (cases v) (simp_all add: spec_sanitize_def fgt_def Let_def split: if_splits)

lemma spec_sanitize_pct:
  "contains ''Pct'' col \<Longrightarrow> spec_sanitize col v \<noteq> NaN
   \<Longrightarrow> fle (Fin 0) (spec_sanitize col v) \<and> fle (spec_sanitize col v) (Fin 100)"
  by (cases v) (simp_all add: spec_sanitize_def fgt_def Let_def split: if_splits)

text \<open>
  C2. The claim: after the clean-up every value of a percentage column lies between 0 and
  100. A missing value of a percentage column stays missing: the comparisons of the loop
  are false for it.
\<close>

theorem clean_numeric_ranges_counterexample:
  "''Pct delay due to infrastructure'' \<in> set numeric_columns
   \<and> contains ''Pct'' ''Pct delay due to infrastructure''
   \<and> fst (clean_numeric (\<lambda>s. None) [''Pct delay due to infrastructure'' \<mapsto> [Num NaN]])
        ''Pct delay due to infrastructure'' = Some [Num NaN]
   \<and> \<not> (fle (Fin 0) NaN \<and> fle NaN (Fin 100))"
  by (simp add: clean_numeric_column spec_sanitize_def fgt_def numeric_columns_def)

text \<open>
  C2, amended. After the clean-up of the numeric columns, in every declared numeric column
  of the frame: no value is negative; in a column whose name contains \<open>Average\<close> every
  value that is not missing is at most 500; in a column whose name contains \<open>Pct\<close> every
  value that is not missing lies between 0 and 100.
\<close>

theorem clean_numeric_ranges:
  assumes "col \<in> set numeric_columns" and "df col = Some cells"
  shows "\<exists>vs. fst (clean_numeric parse df) col = Some (map Num vs)
          \<and> length vs = length cells
          \<and> (\<forall>v \<in> set vs. \<not> flt v (Fin 0))
          \<and> (contains ''Average'' col \<longrightarrow> (\<forall>v \<in> set vs. v \<noteq> NaN \<longrightarrow> fle v (Fin 500)))
          \<and> (contains ''Pct'' col \<longrightarrow>
                (\<forall>v \<in> set vs. v \<noteq> NaN \<longrightarrow> fle (Fin 0) v \<and> fle v (Fin 100)))"
proof -
  let ?vs = "map (\<lambda>c. spec_sanitize col (to_numeric parse c)) cells"
  have "fst (clean_numeric parse df) col = Some (map Num ?vs)"
    using assms by (simp add: clean_numeric_column comp_def)
  moreover have "length ?vs = length cells" by simp
  moreover have "\<forall>v \<in> set ?vs. \<not> flt v (Fin 0)"
    by (auto simp: spec_sanitize_not_negative)
  moreover have "contains ''Average'' col \<longrightarrow> (\<forall>v \<in> set ?vs. v \<noteq> NaN \<longrightarrow> fle v (Fin 500))"
    by (auto simp: spec_sanitize_average)
  moreover have "contains ''Pct'' col \<longrightarrow>
      (\<forall>v \<in> set ?vs. v \<noteq> NaN \<longrightarrow> fle (Fin 0) v \<and> fle v (Fin 100))"
    using spec_sanitize_pct [of col] by auto
  ultimately show ?thesis by blast
qed

theorem clean_numeric_ranges_witness:
  "''Pct delay due to infrastructure'' \<in> set numeric_columns
   \<and> (\<exists>vs. fst (clean_numeric (\<lambda>s. None)
               [''Pct delay due to infrastructure'' \<mapsto> [Num (Fin 130), Num (Fin (- 2)), Str ''x'']])
             ''Pct delay due to infrastructure'' = Some (map Num vs)
          \<and> length vs = 3 \<and> list_all (\<lambda>v. \<not> flt v (Fin 0)) vs
          \<and> list_all (\<lambda>v. v = NaN \<or> fle (Fin 0) v \<and> fle v (Fin 100)) vs)"
proof -
  have col: "''Pct delay due to infrastructure'' \<in> set numeric_columns"
    by (simp add: numeric_columns_def)
  have pct: "contains ''Pct'' ''Pct delay due to infrastructure''"
    by simp
  show ?thesis
    using col pct
      clean_numeric_ranges [OF col, of
        "[''Pct delay due to infrastructure'' \<mapsto> [Num (Fin 130), Num (Fin (- 2)), Str ''x'']]"
        "[Num (Fin 130), Num (Fin (- 2)), Str ''x'']" "\<lambda>s. None"]
    by (auto simp: list_all_iff)
qed

text \<open>
  C4. Every declared numeric column of the frame is processed value by value in the steps
  of the specification: coercion to a number, a token that is no number becoming missing;
  negative values to 0; in a column whose name contains \<open>Average\<close>, values above 500 to
  missing; in a column whose name contains \<open>Pct\<close>, values above 100 to 100 and values
  below 0 to 0. Every other column is left as it is. The coercion keeps a number, gives a
  token that the parser reads as a number that number, and makes any other token missing.
\<close>

theorem clean_numeric_steps:
  "(col \<in> set numeric_columns \<longrightarrow>
      fst (clean_numeric parse df) col =
        map_option (map (\<lambda>c. Num (spec_sanitize col (to_numeric parse c)))) (df col))
   \<and> (col \<notin> set numeric_columns \<longrightarrow> fst (clean_numeric parse df) col = df col)
   \<and> (parse s = None \<longrightarrow> to_numeric parse (Str s) = NaN)
   \<and> (parse t = Some v \<longrightarrow> to_numeric parse (Str t) = v)
   \<and> to_numeric parse (Num w) = w"
  by (simp add: clean_numeric_column)

theorem clean_numeric_steps_witness:
  "''Average journey time'' \<in> set numeric_columns
   \<and> fst (clean_numeric sample_number
        [''Average journey time'' \<mapsto> [Num (Fin 600), Str ''abc'', Num (Fin (- 3)), Str ''120'']])
       ''Average journey time'' = Some [Num NaN, Num NaN, Num (Fin 0), Num (Fin 120)]
   \<and> ''Route'' \<notin> set numeric_columns
   \<and> sample_number ''abc'' = None
   \<and> to_numeric sample_number (Str ''abc'') = NaN
   \<and> sample_number ''120'' = Some (Fin 120)
   \<and> to_numeric sample_number (Str ''120'') = Fin 120
   \<and> to_numeric sample_number (Num (Fin 600)) = Fin 600"
  using clean_numeric_steps [where col = "''Average journey time''" and parse = sample_number
      and df = "[''Average journey time'' \<mapsto>
        [Num (Fin 600), Str ''abc'', Num (Fin (- 3)), Str ''120'']]"
      and s = "''abc''" and t = "''120''" and v = "Fin 120" and w = "Fin 600"]
  by (simp add: numeric_columns_def spec_sanitize_def fgt_def sample_number_def)

subsection \<open>The flag for significant delays\<close>

lemma those_as_number:
  "those (map as_number cells) = Some vs \<Longrightarrow> cells = map Num vs"
proof (induction cells arbitrary: vs)
  case Nil
  then show ?case by simp
next
  case (Cons c cs)
  then show ?case
    by (cases c) (auto split: option.splits)
qed

lemma flag_significant_Inr:
  assumes "flag_significant df = Inr df'"
  shows "\<exists>vs. df ''Average delay of all trains at arrival'' = Some (map Num vs)
          \<and> df' = df(''Is_Significantly_Delayed'' \<mapsto> map significant vs)"
  using assms
  by (auto simp: flag_significant_def split: option.splits dest: those_as_number)

lemma add_route_Inr:
  assumes "add_route df = Inr df'"
  shows "\<exists>route. df' = df(''Route'' \<mapsto> route)"
  using assms by (auto simp: add_route_def split: option.splits sum.splits)

lemma significant_iff: "significant v = Num (Fin 1) \<longleftrightarrow> fgt v (Fin 15)"
  by (simp add: significant_def)

text \<open>
  C7. In the prepared data set the flag \<open>Is_Significantly_Delayed\<close> of a row is 1 exactly
  when its average delay of all trains at arrival is above 15, and 0 otherwise; a delay of
  20 gives 1 and a delay of 10 gives 0.
\<close>

theorem final_prep_significant:
  assumes "final_prep median mode df = Inr df'"
  shows "\<exists>delays flags.
           df' ''Average delay of all trains at arrival'' = Some (map Num delays)
           \<and> df' ''Is_Significantly_Delayed'' = Some flags
           \<and> length flags = length delays
           \<and> (\<forall>i < length delays.
                (flags ! i = Num (Fin 1) \<longleftrightarrow> fgt (delays ! i) (Fin 15))
                \<and> (flags ! i = Num (Fin 1) \<or> flags ! i = Num (Fin 0))
                \<and> (delays ! i = Fin 20 \<longrightarrow> flags ! i = Num (Fin 1))
                \<and> (delays ! i = Fin 10 \<longrightarrow> flags ! i = Num (Fin 0)))"
proof -
  from assms obtain df2 df3 where flag: "flag_significant df2 = Inr df3"
    and route: "add_route df3 = Inr df'"
    by (auto simp: final_prep_def split: sum.splits)
  from flag_significant_Inr [OF flag] obtain vs
    where col: "df2 ''Average delay of all trains at arrival'' = Some (map Num vs)"
      and df3: "df3 = df2(''Is_Significantly_Delayed'' \<mapsto> map significant vs)"
    by blast
  from add_route_Inr [OF route] obtain r where df': "df' = df3(''Route'' \<mapsto> r)"
    by blast
  have d: "df' ''Average delay of all trains at arrival'' = Some (map Num vs)"
    by (simp add: df' df3 col)
  have f: "df' ''Is_Significantly_Delayed'' = Some (map significant vs)"
    by (simp add: df' df3)
  show ?thesis
    by (intro exI [of _ vs] exI [of _ "map significant vs"])
      (simp add: d f significant_def fgt_def)
qed

theorem final_prep_significant_witness:
  "\<exists>df'. final_prep (\<lambda>vs. Fin 15) (filter (\<lambda>c. \<not> isna c)) sample_frame = Inr df'
     \<and> df' ''Average delay of all trains at arrival''
         = Some [Num (Fin 20), Num (Fin 10), Num (Fin 15)]
     \<and> df' ''Is_Significantly_Delayed'' = Some [Num (Fin 1), Num (Fin 0), Num (Fin 0)]"
proof -
  have "\<exists>df'. final_prep (\<lambda>vs. Fin 15) (filter (\<lambda>c. \<not> isna c)) sample_frame = Inr df'
     \<and> df' ''Average delay of all trains at arrival''
         = Some [Num (Fin 20), Num (Fin 10), Num (Fin 15)]
     \<and> df' ''Is_Significantly_Delayed'' = Some [Num (Fin 1), Num (Fin 0), Num (Fin 0)]"
    by (simp add: final_prep_def sample_frame_def numeric_columns_def categorical_columns_def
        fill_numeric_def fill_categorical_def flag_significant_def add_route_def fillna_def
        isna_def significant_def fgt_def)
  then obtain df' where
    run: "final_prep (\<lambda>vs. Fin 15) (filter (\<lambda>c. \<not> isna c)) sample_frame = Inr df'"
    and vals: "df' ''Average delay of all trains at arrival''
         = Some [Num (Fin 20), Num (Fin 10), Num (Fin 15)]"
      "df' ''Is_Significantly_Delayed'' = Some [Num (Fin 1), Num (Fin 0), Num (Fin 0)]"
    by blast
  from final_prep_significant [OF run] have "\<exists>delays flags.
      df' ''Average delay of all trains at arrival'' = Some (map Num delays)
      \<and> df' ''Is_Significantly_Delayed'' = Some flags \<and> length flags = length delays"
    by blast
  with run vals show ?thesis by blast
qed

subsection \<open>Rows removed by their date\<close>

lemma remove_future_member:
  "(i, y) \<in> set (remove_future generic clock rows) \<longleftrightarrow>
     (\<exists>k < length rows. rows ! k = (i, y) \<and> not_future generic (clock k) y)"
proof
  assume "(i, y) \<in> set (remove_future generic clock rows)"
  then obtain k where "(k, i, y) \<in> set (enumerate 0 rows)" "not_future generic (clock k) y"
    by (auto simp: remove_future_def)
  then show "\<exists>k < length rows. rows ! k = (i, y) \<and> not_future generic (clock k) y"
    by (auto simp: in_set_enumerate_eq)
next
  assume "\<exists>k < length rows. rows ! k = (i, y) \<and> not_future generic (clock k) y"
  then obtain k where "k < length rows" "rows ! k = (i, y)" "not_future generic (clock k) y"
    by blast
  then have "(k, i, y) \<in> set (filter (\<lambda>(k, i, x). not_future generic (clock k) x)
      (enumerate 0 rows))"
    by (simp add: in_set_enumerate_eq)
  then have "snd (k, i, y) \<in> set (remove_future generic clock rows)"
    unfolding remove_future_def set_map by (rule imageI)
  then show "(i, y) \<in> set (remove_future generic clock rows)" by simp
qed

lemma df_dates_member:
  assumes "(i, d) \<in> set (df_dates strict generic clock rows)"
  shows "\<exists>k x. k < length rows \<and> rows ! k = (i, x)
           \<and> not_future generic (clock k) (repair_date x)
           \<and> d = fst (safe_date_convert strict generic (repair_date x))"
proof -
  from assms obtain y where y: "(i, y) \<in> set (remove_future generic clock (fix_dates rows))"
    and d: "d = fst (safe_date_convert strict generic y)"
    by (auto simp: df_dates_def)
  from y obtain k where k: "k < length rows" "fix_dates rows ! k = (i, y)"
    "not_future generic (clock k) y"
    by (auto simp: remove_future_member fix_dates_def)
  obtain j x where row: "rows ! k = (j, x)" by (cases "rows ! k")
  with k have "j = i" "y = repair_date x" by (auto simp: fix_dates_def)
  with k d row show ?thesis by blast
qed

lemma row_of_label:
  assumes "distinct (map fst rows)" "k < length rows" "rows ! k = (i, x)"
    "k' < length rows" "rows ! k' = (i, x')"
  shows "k' = k \<and> x' = x"
proof -
  have eq: "map fst rows ! k = map fst rows ! k'" using assms by simp
  have "k < length (map fst rows)" "k' < length (map fst rows)" using assms by simp_all
  from nth_eq_iff_index_eq [OF assms(1) this] eq have "k = k'" by blast
  with assms show ?thesis by simp
qed

lemma sample_df_dates:
  "df_dates sample_strict sample_generic (\<lambda>k. 202611) sample_rows
     = [(0, Some 202304), (4, Some 202304)]"
  by (simp add: df_dates_def remove_future_def fix_dates_def sample_rows_def
      enumerate_eq_zip upt_rec repair_date_def is_digit_def not_future_def
      to_datetime_coerce_def sample_generic_def sample_strict_def safe_date_convert_def)

text \<open>
  C5. A row whose parsed date is later than the reading of the clock taken for it, and a
  row whose date string the parser without a format refuses or reads as \<open>NaT\<close>, is absent
  from the frame \<open>df\<close> that goes on through the notebook (and from \<open>df_clean\<close>); a row
  whose converted date is \<open>NaT\<close> is absent from \<open>df_clean\<close>.
\<close>

theorem dropped_rows:
  assumes "distinct (map fst rows)" and "k < length rows" and "rows ! k = (i, x)"
  shows "(((\<exists>d. to_datetime_coerce generic (repair_date x) = Some d \<and> clock k < d)
            \<or> to_datetime_coerce generic (repair_date x) = None)
          \<longrightarrow> i \<notin> fst ` set (df_dates strict generic clock rows)
              \<and> i \<notin> fst ` set (df_clean strict generic clock rows))
       \<and> (fst (safe_date_convert strict generic (repair_date x)) = None
          \<longrightarrow> i \<notin> fst ` set (df_clean strict generic clock rows))"
proof -
  have kept: "not_future generic (clock k) (repair_date x)
      \<and> d = fst (safe_date_convert strict generic (repair_date x))"
    if "(i, d) \<in> set (df_dates strict generic clock rows)" for d
  proof -
    from df_dates_member [OF that] obtain k' x' where *: "k' < length rows" "rows ! k' = (i, x')"
      "not_future generic (clock k') (repair_date x')"
      "d = fst (safe_date_convert strict generic (repair_date x'))"
      by blast
    from row_of_label [OF assms *(1,2)] * show ?thesis by simp
  qed
  have sub: "set (df_clean strict generic clock rows) \<subseteq> set (df_dates strict generic clock rows)"
    by (auto simp: df_clean_def)
  have first: "i \<notin> fst ` set (df_dates strict generic clock rows)"
    if "(\<exists>d. to_datetime_coerce generic (repair_date x) = Some d \<and> clock k < d)
            \<or> to_datetime_coerce generic (repair_date x) = None"
  proof
    assume "i \<in> fst ` set (df_dates strict generic clock rows)"
    then obtain d where "(i, d) \<in> set (df_dates strict generic clock rows)" by auto
    from kept [OF this] have "not_future generic (clock k) (repair_date x)" by simp
    with that show False by (auto simp: not_future_def split: option.splits)
  qed
  have second: "i \<notin> fst ` set (df_clean strict generic clock rows)"
    if "fst (safe_date_convert strict generic (repair_date x)) = None"
  proof
    assume "i \<in> fst ` set (df_clean strict generic clock rows)"
    then obtain d where "(i, d) \<in> set (df_dates strict generic clock rows)" "d \<noteq> None"
      by (auto simp: df_clean_def)
    with kept [of d] that show False by simp
  qed
  from first second sub show ?thesis by blast
qed

theorem dropped_rows_witness:
  "distinct (map fst sample_rows)
   \<and> sample_rows ! 1 = (1, ''2999-01'')
   \<and> to_datetime_coerce sample_generic (repair_date ''2999-01'') = Some 299901
   \<and> (202611 :: nat) < 299901
   \<and> 1 \<notin> fst ` set (df_dates sample_strict sample_generic (\<lambda>k. 202611) sample_rows)
   \<and> sample_rows ! 3 = (3, ''abc'')
   \<and> to_datetime_coerce sample_generic (repair_date ''abc'') = None
   \<and> fst (safe_date_convert sample_strict sample_generic (repair_date ''abc'')) = None
   \<and> 3 \<notin> fst ` set (df_clean sample_strict sample_generic (\<lambda>k. 202611) sample_rows)
   \<and> df_clean sample_strict sample_generic (\<lambda>k. 202611) sample_rows
       = [(0, Some 202304), (4, Some 202304)]"
proof -
  have d: "distinct (map fst sample_rows)" and l1: "1 < length sample_rows"
    and l3: "3 < length sample_rows"
    and r1: "sample_rows ! 1 = (1, ''2999-01'')" and r3: "sample_rows ! 3 = (3, ''abc'')"
    by (simp_all add: sample_rows_def)
  have p1: "to_datetime_coerce sample_generic (repair_date ''2999-01'') = Some 299901"
    and p3: "to_datetime_coerce sample_generic (repair_date ''abc'') = None"
    and s3: "fst (safe_date_convert sample_strict sample_generic (repair_date ''abc'')) = None"
    by (simp_all add: to_datetime_coerce_def repair_date_def sample_generic_def
        sample_strict_def safe_date_convert_def)
  have c: "df_clean sample_strict sample_generic (\<lambda>k. 202611) sample_rows
       = [(0, Some 202304), (4, Some 202304)]"
    by (simp add: df_clean_def sample_df_dates)
  show ?thesis
    using d r1 r3 p1 p3 s3 c
      dropped_rows [OF d l1 r1, of sample_generic "\<lambda>k. 202611" sample_strict]
      dropped_rows [OF d l3 r3, of sample_generic "\<lambda>k. 202611" sample_strict]
    by simp
qed

subsection \<open>From the raw delay to the flag\<close>

lemma fillna_keeps: "i < length cs \<Longrightarrow> \<not> isna (cs ! i) \<Longrightarrow> fillna m cs ! i = cs ! i"
  by (simp add: fillna_def)

lemma fill_numeric_keeps:
  assumes "fill_numeric median c df = Inr df'" "df col = Some cs" "i < length cs"
    "\<not> isna (cs ! i)"
  shows "\<exists>cs'. df' col = Some cs' \<and> length cs' = length cs \<and> cs' ! i = cs ! i"
  using assms
  by (cases "c = col") (auto simp: fill_numeric_def fillna_keeps fillna_def split: option.splits)

lemma fill_categorical_keeps:
  assumes "fill_categorical mode c df = Inr df'" "df col = Some cs" "i < length cs"
    "\<not> isna (cs ! i)"
  shows "\<exists>cs'. df' col = Some cs' \<and> length cs' = length cs \<and> cs' ! i = cs ! i"
  using assms
  by (cases "c = col")
    (auto simp: fill_categorical_def fillna_keeps fillna_def split: option.splits list.splits)

lemma for_each_keeps:
  assumes step: "\<And>k s s' cs. f k s = Inr s' \<Longrightarrow> s col = Some cs \<Longrightarrow> i < length cs
      \<Longrightarrow> \<not> isna (cs ! i)
      \<Longrightarrow> \<exists>cs'. s' col = Some cs' \<and> length cs' = length cs \<and> cs' ! i = cs ! i"
  shows "for_each f ks s = Inr s' \<Longrightarrow> s col = Some cs \<Longrightarrow> i < length cs \<Longrightarrow> \<not> isna (cs ! i)
      \<Longrightarrow> \<exists>cs'. s' col = Some cs' \<and> length cs' = length cs \<and> cs' ! i = cs ! i"
proof (induction ks arbitrary: s cs)
  case Nil
  then show ?case by simp
next
  case (Cons k ks)
  from Cons.prems(1) obtain s1 where s1: "f k s = Inr s1" and rest: "for_each f ks s1 = Inr s'"
    by (auto split: sum.splits)
  from step [OF s1 Cons.prems(2,3,4)] obtain cs1
    where cs1: "s1 col = Some cs1" "length cs1 = length cs" "cs1 ! i = cs ! i"
    by blast
  with Cons.prems have "i < length cs1" "\<not> isna (cs1 ! i)" by simp_all
  from Cons.IH [OF rest cs1(1) this] cs1 show ?case by auto
qed

lemma fill_numeric_loop_keeps:
  assumes "for_each (fill_numeric median) ks s = Inr s'" "s col = Some cs" "i < length cs"
    "\<not> isna (cs ! i)"
  shows "\<exists>cs'. s' col = Some cs' \<and> length cs' = length cs \<and> cs' ! i = cs ! i"
  by (rule for_each_keeps [OF _ assms]) (rule fill_numeric_keeps)

lemma fill_categorical_loop_keeps:
  assumes "for_each (fill_categorical mode) ks s = Inr s'" "s col = Some cs" "i < length cs"
    "\<not> isna (cs ! i)"
  shows "\<exists>cs'. s' col = Some cs' \<and> length cs' = length cs \<and> cs' ! i = cs ! i"
  by (rule for_each_keeps [OF _ assms]) (rule fill_categorical_keeps)

text \<open>
  End to end: a raw arrival delay between 0 and 500 passes the clean-up and the filling of
  missing values unchanged, so the flag of its row is 1 exactly when the raw delay is above
  15.
\<close>

lemma prepare_significant:
  assumes run: "prepare parse median mode df = Inr df'"
    and col: "df ''Average delay of all trains at arrival'' = Some cells"
    and i: "i < length cells"
    and d: "to_numeric parse (cells ! i) = Fin d" "0 \<le> d" "d \<le> 500"
  shows "\<exists>flags. df' ''Is_Significantly_Delayed'' = Some flags \<and> i < length flags
           \<and> flags ! i = Num (Fin (if 15 < d then 1 else 0))"
proof -
  let ?D = "''Average delay of all trains at arrival''"
  let ?df0 = "fst (clean_numeric parse df)"
  let ?cs0 = "map (\<lambda>c. Num (spec_sanitize ?D (to_numeric parse c))) cells"
  have "?D \<in> set numeric_columns" by (simp add: numeric_columns_def)
  then have c0: "?df0 ?D = Some ?cs0"
    using col by (simp add: clean_numeric_column)
  have v0: "?cs0 ! i = Num (Fin d)"
    using i d by (simp add: spec_sanitize_def fgt_def)
  have i0: "i < length ?cs0" using i by simp
  have n0: "\<not> isna (?cs0 ! i)" unfolding v0 by (simp add: isna_def)
  from run obtain df1 df2 df3 where
    f1: "for_each (fill_numeric median) numeric_columns ?df0 = Inr df1"
    and f2: "for_each (fill_categorical mode) categorical_columns df1 = Inr df2"
    and f3: "flag_significant df2 = Inr df3" and f4: "add_route df3 = Inr df'"
    by (auto simp: prepare_def final_prep_def split: sum.splits)
  from fill_numeric_loop_keeps [OF f1 c0 i0 n0]
  obtain cs1 where cs1: "df1 ?D = Some cs1" "length cs1 = length ?cs0" "cs1 ! i = ?cs0 ! i"
    by blast
  then have i1: "i < length cs1" and n1: "\<not> isna (cs1 ! i)" using i0 n0 by simp_all
  from fill_categorical_loop_keeps [OF f2 cs1(1) i1 n1]
  obtain cs2 where cs2: "df2 ?D = Some cs2" "length cs2 = length cs1" "cs2 ! i = cs1 ! i"
    by blast
  from flag_significant_Inr [OF f3] obtain vs where vs: "df2 ?D = Some (map Num vs)"
    and df3: "df3 = df2(''Is_Significantly_Delayed'' \<mapsto> map significant vs)"
    by blast
  from add_route_Inr [OF f4] obtain r where df': "df' = df3(''Route'' \<mapsto> r)" by blast
  from vs cs2 have eq: "cs2 = map Num vs" by simp
  with cs2 cs1 i0 have len: "i < length vs" by simp
  with eq cs2 cs1 v0 have "vs ! i = Fin d" by simp
  with len have "map significant vs ! i = Num (Fin (if 15 < d then 1 else 0))"
    by (simp add: significant_def fgt_def)
  with len show ?thesis by (simp add: df' df3)
qed

end
